theory Spec2Isabelle
  imports Complex_Main "HOL-Library.Log_Nat" "HOL-Library.AList"
begin

section \<open>Python values used by the server\<close>

type_synonym bytes = "char list"

text \<open>
  A raised exception, with the text that \<^verbatim>\<open>str(e)\<close> gives. Handlers of
  \<^verbatim>\<open>server.py\<close> tell apart \<^verbatim>\<open>ValueError\<close> and
  \<^verbatim>\<open>FileNotFoundError\<close>; every other class is caught as
  \<^verbatim>\<open>Exception\<close>. \<^verbatim>\<open>OSError\<close> stands for the operating system errors that have
  no class of their own.
\<close>

datatype py_exn =
    ValueError string
  | ZeroDivisionError string
  | FileNotFoundError string
  | IsADirectoryError string
  | NotADirectoryError string
  | OSError string
  | IndexError string
  | TypeError string
  | AttributeError string
  | OtherException string

fun str_exn :: "py_exn \<Rightarrow> string" where
  "str_exn (ValueError m) = m"
| "str_exn (ZeroDivisionError m) = m"
| "str_exn (FileNotFoundError m) = m"
| "str_exn (IsADirectoryError m) = m"
| "str_exn (NotADirectoryError m) = m"
| "str_exn (OSError m) = m"
| "str_exn (IndexError m) = m"
| "str_exn (TypeError m) = m"
| "str_exn (AttributeError m) = m"
| "str_exn (OtherException m) = m"

text \<open>
  The values of a request body and of a response: JSON null, booleans, integers and
  strings. A body is the dict that \<^verbatim>\<open>request.get_json()\<close> returns, as the list of
  its items.
\<close>

datatype json = JNull | JBool bool | JInt int | JStr string

type_synonym json_obj = "(string \<times> json) list"

fun truthy :: "json \<Rightarrow> bool" where
  "truthy JNull = False"
| "truthy (JBool b) = b"
| "truthy (JInt n) = (n \<noteq> 0)"
| "truthy (JStr s) = (s \<noteq> [])"

definition dict_get :: "json_obj \<Rightarrow> string \<Rightarrow> json" where
  "dict_get data k = (case map_of data k of None \<Rightarrow> JNull | Some v \<Rightarrow> v)"

definition dict_get_default :: "json_obj \<Rightarrow> string \<Rightarrow> json \<Rightarrow> json" where
  "dict_get_default data k d = (case map_of data k of None \<Rightarrow> d | Some v \<Rightarrow> v)"

text \<open>What a route returns: a JSON body with its status, or an exception no handler caught.\<close>

datatype response = Json json_obj nat | Unhandled py_exn

subsection \<open>Strings\<close>

text \<open>\<^verbatim>\<open>str(n)\<close> of a non-negative integer: its decimal digits.\<close>

definition digit_char :: "nat \<Rightarrow> char" where
  "digit_char d = char_of (48 + d)"

function str_nat :: "nat \<Rightarrow> string" where
  "str_nat n = (if n < 10 then [digit_char n] else str_nat (n div 10) @ [digit_char (n mod 10)])"
  by pat_completeness auto
termination
  by (relation "measure id") auto

definition str_int :: "int \<Rightarrow> string" where
  "str_int i = (if i < 0 then CHR ''-'' # str_nat (nat (- i)) else str_nat (nat i))"

fun py_str :: "json \<Rightarrow> string" where
  "py_str JNull = ''None''"
| "py_str (JBool b) = (if b then ''True'' else ''False'')"
| "py_str (JInt n) = str_int n"
| "py_str (JStr s) = s"

definition endswith :: "string \<Rightarrow> string \<Rightarrow> bool" where
  "endswith s suf = (length suf \<le> length s \<and> drop (length s - length suf) s = suf)"

definition startswith :: "string \<Rightarrow> string \<Rightarrow> bool" where
  "startswith s pre = (take (length pre) s = pre)"

text \<open>\<^verbatim>\<open>s.rsplit(c, 1)[0]\<close>: what stands before the last \<open>c\<close>, all of \<open>s\<close> when it has none.\<close>

definition rsplit1_head :: "char \<Rightarrow> string \<Rightarrow> string" where
  "rsplit1_head c s =
     (if c \<in> set s then rev (tl (dropWhile (\<lambda>x. x \<noteq> c) (rev s))) else s)"

text \<open>\<^verbatim>\<open>s.split(c, 1)[1]\<close>, used only where \<open>c\<close> is in \<open>s\<close>: what follows the first \<open>c\<close>;
  without a \<open>c\<close> the index is out of range.\<close>

definition split1_tail :: "char \<Rightarrow> string \<Rightarrow> py_exn + string" where
  "split1_tail c s =
     (if c \<in> set s then Inr (tl (dropWhile (\<lambda>x. x \<noteq> c) s))
      else Inl (IndexError ''list index out of range''))"

text \<open>\<^verbatim>\<open>if ',' in image_data: image_data = image_data.split(',', 1)[1]\<close>\<close>

definition strip_data_url_prefix :: "string \<Rightarrow> string" where
  "strip_data_url_prefix s =
     (if CHR '','' \<in> set s then tl (dropWhile (\<lambda>x. x \<noteq> CHR '','') s) else s)"

text \<open>\<^verbatim>\<open>s.split(c)\<close>: the pieces of \<open>s\<close> between the occurrences of \<open>c\<close>.\<close>

fun split_on :: "char \<Rightarrow> string \<Rightarrow> string list" where
  "split_on c [] = [[]]"
| "split_on c (x # xs) =
     (if x = c then [] # split_on c xs
      else (case split_on c xs of [] \<Rightarrow> [[x]] | y # ys \<Rightarrow> (x # y) # ys))"

section \<open>Paths and the file system\<close>

text \<open>
  A \<^verbatim>\<open>pathlib\<close> path is the list of its parts from the root. Parsing a string drops the
  empty parts and the parts \<^verbatim>\<open>.\<close>, and keeps the parts \<^verbatim>\<open>..\<close>; joining a directory with
  an absolute name gives the name alone.
\<close>

type_synonym path = "string list"

definition parts :: "string \<Rightarrow> string list" where
  "parts s = filter (\<lambda>c. c \<noteq> [] \<and> c \<noteq> ''.'') (split_on CHR ''/'' s)"

definition path_join :: "path \<Rightarrow> string \<Rightarrow> path" where
  "path_join d name = (if startswith name ''/'' then parts name else d @ parts name)"

definition path_str :: "path \<Rightarrow> string" where
  "path_str p = (if p = [] then ''/'' else concat (map (\<lambda>c. CHR ''/'' # c) p))"

text \<open>\<^verbatim>\<open>Path(p).name\<close>: the last part, and \<^verbatim>\<open>Path(p).stem\<close>: that name without its last
  suffix.\<close>

definition path_name :: "path \<Rightarrow> string" where
  "path_name p = (if p = [] then [] else last p)"


text \<open>
  The directory of \<^verbatim>\<open>server.py\<close>, which \<^verbatim>\<open>Path(__file__).parent\<close> gives as an absolute
  path, is taken to be \<^verbatim>\<open>/app\<close>. The gallery and, inside it, the thumbnails are made at
  start-up.
\<close>

definition SERVER_DIR :: path where
  "SERVER_DIR = [''app'']"

definition GALLERY_DIR :: path where
  "GALLERY_DIR = SERVER_DIR @ [''gallery'']"

definition THUMBS_DIR :: path where
  "THUMBS_DIR = GALLERY_DIR @ [''thumbs'']"

text \<open>
  The files: a finite tree without links, each entry under the parts of its resolved
  path; the root is a directory. The limits are those of Linux.
\<close>

datatype node = File bytes | Dir

type_synonym filesystem = "(path \<times> node) list"

definition NAME_MAX :: nat where
  "NAME_MAX = 255"

definition PATH_MAX :: nat where
  "PATH_MAX = 4096"

definition quoted :: "string \<Rightarrow> string" where
  "quoted s = [CHR 0x27] @ s @ [CHR 0x27]"

definition ENOENT :: "path \<Rightarrow> py_exn" where
  "ENOENT p = FileNotFoundError (''[Errno 2] No such file or directory: '' @ quoted (path_str p))"

definition ENOTDIR :: "path \<Rightarrow> py_exn" where
  "ENOTDIR p = NotADirectoryError (''[Errno 20] Not a directory: '' @ quoted (path_str p))"

definition EISDIR :: "path \<Rightarrow> py_exn" where
  "EISDIR p = IsADirectoryError (''[Errno 21] Is a directory: '' @ quoted (path_str p))"

definition ENAMETOOLONG :: "path \<Rightarrow> py_exn" where
  "ENAMETOOLONG p = OSError (''[Errno 36] File name too long: '' @ quoted (path_str p))"

definition is_dir :: "filesystem \<Rightarrow> path \<Rightarrow> bool" where
  "is_dir files k = (k = [] \<or> map_of files k = Some Dir)"

text \<open>
  Resolution of the parts \<open>cs\<close> from the directory \<open>cur\<close>: every part is looked up in a
  directory, \<^verbatim>\<open>..\<close> goes to the parent, and a part longer than \<open>NAME_MAX\<close> is refused.
  The path \<open>p\<close> is only the one the error names.
\<close>

fun walk :: "filesystem \<Rightarrow> path \<Rightarrow> path \<Rightarrow> string list \<Rightarrow> py_exn + path" where
  "walk files p cur [] = Inr cur"
| "walk files p cur (c # cs) =
     (if \<not> is_dir files cur
      then Inl (if map_of files cur = None then ENOENT p else ENOTDIR p)
      else if c = ''..'' then walk files p (butlast cur) cs
      else if NAME_MAX < length c then Inl (ENAMETOOLONG p)
      else walk files p (cur @ [c]) cs)"

text \<open>\<^verbatim>\<open>os.stat\<close>: where the path leads and what is there, \<open>None\<close> when the last part is
  missing from its directory.\<close>

definition stat :: "filesystem \<Rightarrow> path \<Rightarrow> py_exn + (path \<times> node option)" where
  "stat files p =
     (if CHR 0x00 \<in> set (path_str p) then Inl (ValueError ''embedded null byte'')
      else if PATH_MAX \<le> length (path_str p) then Inl (ENAMETOOLONG p)
      else (case walk files p [] p of
              Inl e \<Rightarrow> Inl e
            | Inr k \<Rightarrow> Inr (k, if k = [] then Some Dir else map_of files k)))"

text \<open>
  \<^verbatim>\<open>Path.exists()\<close> as it is up to Python 3.13: false when the path or a directory on
  the way is missing and when the path holds a null byte; any other error of
  \<^verbatim>\<open>os.stat\<close> is raised.
\<close>

definition path_exists :: "filesystem \<Rightarrow> path \<Rightarrow> py_exn + bool" where
  "path_exists files p =
     (case stat files p of
        Inr (k, n) \<Rightarrow> Inr (n \<noteq> None)
      | Inl (FileNotFoundError m) \<Rightarrow> Inr False
      | Inl (NotADirectoryError m) \<Rightarrow> Inr False
      | Inl (ValueError m) \<Rightarrow> Inr False
      | Inl e \<Rightarrow> Inl e)"

text \<open>\<^verbatim>\<open>open(p, "wb")\<close>: makes the file, or empties the one that is there; the result is
  the open file, by the place it is stored at, and the files after it.\<close>

definition open_wb :: "filesystem \<Rightarrow> path \<Rightarrow> py_exn + (path \<times> filesystem)" where
  "open_wb files p =
     (case stat files p of
        Inl e \<Rightarrow> Inl e
      | Inr (k, Some Dir) \<Rightarrow> Inl (EISDIR p)
      | Inr (k, _) \<Rightarrow> Inr (k, AList.update k (File []) files))"

text \<open>\<^verbatim>\<open>f.write(b)\<close> on the file opened at \<open>k\<close>.\<close>

definition write_bytes :: "filesystem \<Rightarrow> path \<Rightarrow> bytes \<Rightarrow> filesystem" where
  "write_bytes files k b = AList.update k (File b) files"

text \<open>\<^verbatim>\<open>open(p, "rb")\<close>: the place of the file and its bytes.\<close>

definition open_rb :: "filesystem \<Rightarrow> path \<Rightarrow> py_exn + (path \<times> bytes)" where
  "open_rb files p =
     (case stat files p of
        Inl e \<Rightarrow> Inl e
      | Inr (k, None) \<Rightarrow> Inl (ENOENT p)
      | Inr (k, Some Dir) \<Rightarrow> Inl (EISDIR p)
      | Inr (k, Some (File b)) \<Rightarrow> Inr (k, b))"

definition unlink :: "filesystem \<Rightarrow> path \<Rightarrow> py_exn + filesystem" where
  "unlink files p =
     (case stat files p of
        Inl e \<Rightarrow> Inl e
      | Inr (k, None) \<Rightarrow> Inl (ENOENT p)
      | Inr (k, Some Dir) \<Rightarrow> Inl (EISDIR p)
      | Inr (k, Some (File b)) \<Rightarrow> Inr (AList.delete k files))"

text \<open>What start-up leaves behind: the server directory and the gallery in it are
  directories.\<close>

definition gallery_ready :: "filesystem \<Rightarrow> bool" where
  "gallery_ready files = (is_dir files SERVER_DIR \<and> is_dir files GALLERY_DIR)"

section \<open>What the server calls\<close>

text \<open>A decoded image: its mode, its size and its pixels, each with the RGB colour the
  imaging library converts it to and, in mode RGBA, its alpha value.\<close>

record 'px image =
  mode :: string
  width :: int
  height :: int
  pix :: "int \<Rightarrow> int \<Rightarrow> 'px"
  alpha :: "int \<Rightarrow> int \<Rightarrow> nat"

text \<open>A picture the generation API returns in \<^verbatim>\<open>message.images\<close>.\<close>

record image_part =
  part_type :: string
  part_url :: string

record message =
  content :: "string option"
  images :: "image_part list"

text \<open>How \<^verbatim>\<open>subprocess.run\<close> of the metadata tool ends: the tool is not installed,
  another exception, or a run with its return code, its error output and the file as the
  tool left it.\<close>

datatype tool_run = NotInstalled | RunFailed py_exn | Completed int string bytes

text \<open>
  The libraries and services behind the server: the environment variable of the API key,
  the chat completion call (prompt and data URL), \<^verbatim>\<open>uuid.uuid4().hex[:8]\<close>, base64,
  the imaging library (opening an image, reading its size, alpha blending onto a colour,
  Lanczos resampling, JPEG encoding, the thumbnail of a file) and the metadata tool.
\<close>

record 'px env =
  api_key :: "string option"
  chat_create :: "string \<Rightarrow> string \<Rightarrow> py_exn + message"
  uuid_hex8 :: string
  b64decode :: "string \<Rightarrow> py_exn + bytes"
  b64encode :: "bytes \<Rightarrow> string"
  image_open :: "bytes \<Rightarrow> py_exn + 'px image"
  image_size :: "bytes \<Rightarrow> py_exn + (int \<times> int)"
  black :: "'px"
  composite :: "'px \<Rightarrow> nat \<Rightarrow> 'px \<Rightarrow> 'px"
  lanczos :: "'px image \<Rightarrow> int \<times> int \<Rightarrow> int \<Rightarrow> int \<Rightarrow> 'px"
  save_jpeg :: "'px image \<Rightarrow> nat \<Rightarrow> bytes"
  thumbnail_jpeg :: "bytes \<Rightarrow> py_exn + bytes"
  exiftool :: "string list \<Rightarrow> bytes \<Rightarrow> tool_run"

text \<open>The state a request can change: the files, and the calls made to the generation API.\<close>

record world =
  disk :: filesystem
  api_calls :: "(string \<times> string) list"

section \<open>Floating point\<close>

text \<open>
  Python floats are binary64. \<open>fl\<close> rounds a rational to the nearest number with 53
  significant bits, ties to the even significand, as every float operation of the server
  does to its exact result. The exponent range is left open: for magnitudes between
  \<open>2 powi (- 1022)\<close> and \<open>2 powi 1024\<close>, where the quotients and products of image
  sizes lie, it agrees with binary64.
\<close>

definition round_half_even :: "rat \<Rightarrow> int" where
  "round_half_even x =
     (let n = \<lfloor>x\<rfloor>; r = x - of_int n
      in if r < 1 / 2 then n else if 1 / 2 < r then n + 1 else if even n then n else n + 1)"

text \<open>For \<open>x > 0\<close>, the \<open>e\<close> with \<open>2 powi e \<le> x < 2 powi (e + 1)\<close>.\<close>

definition float_exponent :: "rat \<Rightarrow> int" where
  "float_exponent x =
     (let (a, b) = quotient_of x; e = bitlen a - bitlen b
      in if 2 powi e \<le> x then e else e - 1)"

definition fl :: "rat \<Rightarrow> rat" where
  "fl x =
     (if x = 0 then 0
      else let ulp = 2 powi (float_exponent \<bar>x\<bar> - 52)
           in sgn x * of_int (round_half_even (\<bar>x\<bar> / ulp)) * ulp)"

text \<open>\<^verbatim>\<open>int(x)\<close> of a float: truncation towards zero.\<close>

definition py_int :: "rat \<Rightarrow> int" where
  "py_int x = (if 0 \<le> x then \<lfloor>x\<rfloor> else \<lceil>x\<rceil>)"

section \<open>The imaging library\<close>

definition image_new :: "int \<times> int \<Rightarrow> 'px \<Rightarrow> 'px image" where
  "image_new sz color =
     \<lparr>mode = ''RGB'', width = fst sz, height = snd sz,
      pix = (\<lambda>x y. color), alpha = (\<lambda>x y. 255)\<rparr>"

text \<open>\<^verbatim>\<open>dst.paste(src, (px, py))\<close>: the pixels of \<open>src\<close> replace those of \<open>dst\<close> in the box
  at \<open>(px, py)\<close>.\<close>

definition paste :: "'px image \<Rightarrow> 'px image \<Rightarrow> int \<times> int \<Rightarrow> 'px image" where
  "paste dst src box =
     dst\<lparr>pix := (\<lambda>x y.
        if fst box \<le> x \<and> x < fst box + width src \<and> snd box \<le> y \<and> y < snd box + height src
        then pix src (x - fst box) (y - snd box) else pix dst x y)\<rparr>"

text \<open>\<^verbatim>\<open>dst.paste(src, mask=src.split()[-1])\<close>: \<open>src\<close> blended onto \<open>dst\<close> by its alpha.\<close>

definition paste_mask :: "'px env \<Rightarrow> 'px image \<Rightarrow> 'px image \<Rightarrow> 'px image" where
  "paste_mask env dst src =
     dst\<lparr>pix := (\<lambda>x y. composite env (pix src x y) (alpha src x y) (pix dst x y))\<rparr>"

definition convert_rgb :: "'px image \<Rightarrow> 'px image" where
  "convert_rgb img = img\<lparr>mode := ''RGB'', alpha := (\<lambda>x y. 255)\<rparr>"

text \<open>\<^verbatim>\<open>img.crop((left, upper, right, lower))\<close>; what lies outside the image is black.\<close>

definition crop :: "'px env \<Rightarrow> 'px image \<Rightarrow> int \<times> int \<times> int \<times> int \<Rightarrow> 'px image" where
  "crop env img box =
     (case box of (left, upper, right, lower) \<Rightarrow>
        img\<lparr>width := right - left, height := lower - upper,
            pix := (\<lambda>x y.
              if 0 \<le> x + left \<and> x + left < width img \<and> 0 \<le> y + upper \<and> y + upper < height img
              then pix img (x + left) (y + upper) else black env)\<rparr>)"

text \<open>\<^verbatim>\<open>img.resize(size, Image.Resampling.LANCZOS)\<close>\<close>

definition resize :: "'px env \<Rightarrow> 'px image \<Rightarrow> int \<times> int \<Rightarrow> 'px image" where
  "resize env img sz =
     img\<lparr>width := fst sz, height := snd sz, pix := lanczos env img sz\<rparr>"

section \<open>Fixing the aspect ratio\<close>

definition DEFAULT_WIDTH :: int where
  "DEFAULT_WIDTH = 6000"

definition DEFAULT_HEIGHT :: int where
  "DEFAULT_HEIGHT = 3000"

text \<open>Lines 95 to 103: the conversion to RGB, transparency flattened onto the background.\<close>

definition to_rgb :: "'px env \<Rightarrow> 'px image \<Rightarrow> 'px \<Rightarrow> 'px image" where
  "to_rgb env img bg_color =
     (if mode img = ''RGBA'' \<or> mode img = ''P'' then
        (let background = image_new (width img, height img) bg_color
         in if mode img = ''RGBA'' then paste_mask env background img
            else paste background img (0, 0))
      else if mode img \<noteq> ''RGB'' then convert_rgb img
      else img)"

text \<open>\<^verbatim>\<open>abs(current_ratio - target_ratio) < 0.01\<close>, with
  \<^verbatim>\<open>current_ratio = width / height\<close>.\<close>

definition already_2_1 :: "int \<Rightarrow> int \<Rightarrow> bool" where
  "already_2_1 w h = (\<bar>fl (fl (of_int w / of_int h) - 2)\<bar> < fl (1 / 100))"

text \<open>\<^verbatim>\<open>fix_aspect_ratio\<close> from the opened image to the image it saves.\<close>

definition fix_aspect_ratio_image ::
  "'px env \<Rightarrow> 'px image \<Rightarrow> json \<Rightarrow> 'px \<Rightarrow> py_exn + 'px image" where
  "fix_aspect_ratio_image env opened md bg_color =
     (let img = to_rgb env opened bg_color; w = width img; h = height img in
      if h = 0 then Inl (ZeroDivisionError ''division by zero'')
      else
        let current_ratio = fl (of_int w / of_int h); target_ratio = 2 in
        if already_2_1 w h then
          Inr (if w < DEFAULT_WIDTH then resize env img (DEFAULT_WIDTH, DEFAULT_HEIGHT) else img)
        else
          let img =
            (if md = JStr ''stretch'' then
               (let new_width = w; new_height = w div 2
                in resize env img (new_width, new_height))
             else if md = JStr ''crop'' then
               (if current_ratio > target_ratio then
                  (let new_width = py_int (fl (fl (of_int h) * target_ratio));
                       left = (w - new_width) div 2
                   in crop env img (left, 0, left + new_width, h))
                else
                  (let new_height = py_int (fl (fl (of_int w) / target_ratio));
                       top = (h - new_height) div 2
                   in crop env img (0, top, w, top + new_height)))
             else
               (if current_ratio > target_ratio then
                  (let new_height = py_int (fl (fl (of_int w) / target_ratio));
                       new_img = image_new (w, new_height) bg_color;
                       paste_y = (new_height - h) div 2
                   in paste new_img img (0, paste_y))
                else
                  (let new_width = py_int (fl (fl (of_int h) * target_ratio));
                       new_img = image_new (new_width, h) bg_color;
                       paste_x = (new_width - w) div 2
                   in paste new_img img (paste_x, 0))))
          in Inr (if width img < DEFAULT_WIDTH
                  then resize env img (DEFAULT_WIDTH, DEFAULT_HEIGHT) else img))"

definition fix_aspect_ratio :: "'px env \<Rightarrow> bytes \<Rightarrow> json \<Rightarrow> 'px \<Rightarrow> py_exn + bytes" where
  "fix_aspect_ratio env image_data md bg_color =
     (case image_open env image_data of
        Inl e \<Rightarrow> Inl e
      | Inr opened \<Rightarrow>
          (case fix_aspect_ratio_image env opened md bg_color of
             Inl e \<Rightarrow> Inl e
           | Inr img \<Rightarrow> Inr (save_jpeg env img 95)))"

section \<open>The gallery\<close>

text \<open>
  The loop of \<^verbatim>\<open>api_gallery_save\<close> and \<^verbatim>\<open>api_fix_ratio\<close> that avoids overwriting:
  \<^verbatim>\<open>while filepath.exists(): name = stem + f"_{counter}.jpg"; counter += 1\<close>.
  It ends with the first name that does not exist, or with the exception of an existence
  check.
\<close>

definition numbered :: "string \<Rightarrow> nat \<Rightarrow> string" where
  "numbered stem counter = stem @ ''_'' @ str_nat counter @ ''.jpg''"

declare str_nat.simps [simp del]

lemma digit_char_not_slash: "d < 10 \<Longrightarrow> digit_char d \<noteq> CHR ''/''"
proof
  assume d: "d < 10" and e: "digit_char d = CHR ''/''"
  from e have "of_char (char_of (48 + d) :: char) = (of_char (CHR ''/'') :: nat)"
    by (simp only: digit_char_def)
  with d show False by simp
qed

lemma slash_not_in_str_nat: "CHR ''/'' \<notin> set (str_nat n)"
proof (induction n rule: str_nat.induct)
  case (1 n)
  show ?case
  proof (cases "n < 10")
    case True
    then show ?thesis
      using digit_char_not_slash [of n] by (subst str_nat.simps) auto
  next
    case False
    have "n mod 10 < 10" by simp
    from digit_char_not_slash [OF this] 1 False show ?thesis
      by (subst str_nat.simps) auto
  qed
qed

lemma less_power_length_str_nat: "n < 10 ^ length (str_nat n)"
proof (induction n rule: str_nat.induct)
  case (1 n)
  show ?case
  proof (cases "n < 10")
    case True
    then show ?thesis by (subst str_nat.simps) simp
  next
    case False
    with 1 have ih: "n div 10 < 10 ^ length (str_nat (n div 10))" by simp
    have "n < 10 * (n div 10 + 1)" by presburger
    also have "\<dots> \<le> 10 * 10 ^ length (str_nat (n div 10))" using ih by simp
    finally show ?thesis using False by (subst str_nat.simps) simp
  qed
qed

lemma split_on_not_Nil [simp]: "split_on c s \<noteq> []"
  by (induction s) (auto split: list.split)

lemma split_on_no_sep: "c \<notin> set t \<Longrightarrow> split_on c t = [t]"
  by (induction t) auto

lemma split_on_append:
  assumes "c \<notin> set t"
  shows "split_on c (s @ t) = butlast (split_on c s) @ [last (split_on c s) @ t]"
proof (induction s)
  case Nil
  from assms show ?case by (simp add: split_on_no_sep)
next
  case (Cons x s)
  show ?case
  proof (cases "x = c")
    case True
    with Cons show ?thesis by simp
  next
    case False
    obtain y ys where s: "split_on c s = y # ys"
      using split_on_not_Nil [of c s] by (cases "split_on c s") auto
    show ?thesis
    proof (cases ys)
      case Nil
      with False Cons s show ?thesis by simp
    next
      case (Cons z zs)
      with False Cons.IH s show ?thesis by simp
    qed
  qed
qed

lemma parts_append:
  assumes "CHR ''/'' \<notin> set t" and "2 \<le> length t"
  shows "parts (s @ t)
    = filter (\<lambda>c. c \<noteq> [] \<and> c \<noteq> ''.'') (butlast (split_on CHR ''/'' s))
      @ [last (split_on CHR ''/'' s) @ t]"
proof -
  from assms(2) have "last (split_on CHR ''/'' s) @ t \<noteq> []"
    and "last (split_on CHR ''/'' s) @ t \<noteq> ''.''"
    by (auto simp: append_eq_Cons_conv)
  then show ?thesis
    by (simp add: parts_def split_on_append [OF assms(1)])
qed

lemma path_join_append:
  assumes "CHR ''/'' \<notin> set t" and "2 \<le> length t"
  shows "path_join d (s @ t)
    = (if startswith s ''/'' then [] else d)
      @ filter (\<lambda>c. c \<noteq> [] \<and> c \<noteq> ''.'') (butlast (split_on CHR ''/'' s))
      @ [last (split_on CHR ''/'' s) @ t]"
proof -
  have "startswith (s @ t) ''/'' = startswith s ''/''"
    using assms by (cases s; cases t) (auto simp: startswith_def)
  then show ?thesis
    by (simp add: path_join_def parts_append [OF assms])
qed

lemma length_last_path_str: "p \<noteq> [] \<Longrightarrow> length (last p) < length (path_str p)"
  by (induction p) (auto simp: path_str_def)

lemma path_exists_True_length:
  "path_exists files p = Inr True \<Longrightarrow> length (path_str p) < PATH_MAX"
  by (auto simp: path_exists_def stat_def split: if_splits sum.splits py_exn.splits)

lemma finite_numbered_existing:
  "finite {k. path_exists files (path_join d (numbered stem k)) = Inr True}"
proof -
  have "k < 10 ^ PATH_MAX"
    if "path_exists files (path_join d (numbered stem k)) = Inr True" for k
  proof -
    let ?t = "''_'' @ str_nat k @ ''.jpg''"
    have t: "CHR ''/'' \<notin> set ?t" "2 \<le> length ?t"
      using slash_not_in_str_nat [of k] by simp_all
    have n: "numbered stem k = stem @ ?t" by (simp add: numbered_def)
    let ?p = "path_join d (numbered stem k)"
    have l: "?p \<noteq> []" "last ?p = last (split_on CHR ''/'' stem) @ ?t"
      unfolding n path_join_append [OF t] by simp_all
    have "length (str_nat k) \<le> length (last ?p)" unfolding l(2) by simp
    also have "\<dots> < length (path_str ?p)" by (rule length_last_path_str [OF l(1)])
    also have "\<dots> < PATH_MAX" by (rule path_exists_True_length [OF that])
    finally have "length (str_nat k) < PATH_MAX" .
    then have "(10::nat) ^ length (str_nat k) \<le> 10 ^ PATH_MAX"
      by (intro power_increasing) simp_all
    then show ?thesis by (rule less_le_trans [OF less_power_length_str_nat])
  qed
  then have "{k. path_exists files (path_join d (numbered stem k)) = Inr True}
      \<subseteq> {k. k < 10 ^ PATH_MAX}" by blast
  then show ?thesis by (rule finite_subset) simp
qed

function avoid_overwriting ::
  "filesystem \<Rightarrow> string \<Rightarrow> string \<Rightarrow> nat \<Rightarrow> py_exn + string" where
  "avoid_overwriting files stem name counter =
     (if path_exists files (path_join GALLERY_DIR name) = Inr True
      then avoid_overwriting files stem (numbered stem counter) (counter + 1)
      else (case path_exists files (path_join GALLERY_DIR name) of
              Inl e \<Rightarrow> Inl e
            | Inr found \<Rightarrow> Inr name))"
  by pat_completeness auto
termination
proof (relation "measure (\<lambda>(files, stem, name, counter).
    card {k. counter \<le> k
             \<and> path_exists files (path_join GALLERY_DIR (numbered stem k)) = Inr True}
    + (if path_exists files (path_join GALLERY_DIR name) = Inr True then 1 else 0))")
  show "wf (measure (\<lambda>(files, stem, name, counter).
    card {k. counter \<le> k
             \<and> path_exists files (path_join GALLERY_DIR (numbered stem k)) = Inr True}
    + (if path_exists files (path_join GALLERY_DIR name) = Inr True then 1 else 0)))"
    by simp
next
  fix files :: filesystem and stem name :: string and counter :: nat
  assume ex: "path_exists files (path_join GALLERY_DIR name) = Inr True"
  let ?T = "\<lambda>k. path_exists files (path_join GALLERY_DIR (numbered stem k)) = Inr True"
  let ?E = "\<lambda>c. {k. c \<le> k \<and> ?T k}"
  have fin: "finite (?E counter)"
    by (rule finite_subset [OF _ finite_numbered_existing [of files GALLERY_DIR stem]]) auto
  have "card (?E (counter + 1)) + (if ?T counter then 1 else 0) = card (?E counter)"
  proof (cases "?T counter")
    case True
    then have "?E counter = insert counter (?E (counter + 1))"
      by (auto simp: le_Suc_eq)
    moreover have "counter \<notin> ?E (counter + 1)" by simp
    moreover have "finite (?E (counter + 1))"
      by (rule finite_subset [OF _ fin]) auto
    ultimately show ?thesis using True by simp
  next
    case False
    then have "?E counter = ?E (counter + 1)"
      by (auto simp: le_Suc_eq) (metis Suc_leI le_neq_implies_less)
    with False show ?thesis by simp
  qed
  with ex show "((files, stem, numbered stem counter, counter + 1), (files, stem, name, counter))
    \<in> measure (\<lambda>(files, stem, name, counter).
      card {k. counter \<le> k
               \<and> path_exists files (path_join GALLERY_DIR (numbered stem k)) = Inr True}
      + (if path_exists files (path_join GALLERY_DIR name) = Inr True then 1 else 0))"
    by simp
qed

declare avoid_overwriting.simps [simp del]

text \<open>\<^verbatim>\<open>if not name.endswith('.jpg'): name = name.rsplit('.', 1)[0] + '.jpg'\<close>\<close>

definition ensure_jpg_extension :: "string \<Rightarrow> string" where
  "ensure_jpg_extension name =
     (if \<not> endswith name ''.jpg'' then rsplit1_head CHR ''.'' name @ ''.jpg'' else name)"

definition error_body :: "string \<Rightarrow> json_obj" where
  "error_body msg = [(''error'', JStr msg)]"

text \<open>\<^verbatim>\<open>api_gallery_save\<close>. The loop over the names stands before the \<^verbatim>\<open>try\<close>: an
  exception of its existence checks is not handled.\<close>

definition api_gallery_save :: "'px env \<Rightarrow> world \<Rightarrow> json_obj \<Rightarrow> response \<times> world" where
  "api_gallery_save env w data =
     (if data = [] then (Json (error_body ''No JSON data provided'') 400, w)
      else
        let image_data = dict_get data ''image'';
            name = dict_get_default data ''name'' (JStr (''image_'' @ uuid_hex8 env))
        in
        if \<not> truthy image_data then (Json (error_body ''No image provided'') 400, w)
        else
          (case image_data of
             JStr s \<Rightarrow>
               (let image_data = strip_data_url_prefix s in
                case name of
                  JStr n \<Rightarrow>
                    (let name = ensure_jpg_extension n;
                         original_name = name
                     in
                     case avoid_overwriting (disk w)
                            (rsplit1_head CHR ''.'' original_name) name 1 of
                       Inl e \<Rightarrow> (Unhandled e, w)
                     | Inr name \<Rightarrow>
                         (let filepath = path_join GALLERY_DIR name in
                          case open_wb (disk w) filepath of
                            Inl e \<Rightarrow> (Json (error_body (str_exn e)) 500, w)
                          | Inr (f, opened) \<Rightarrow>
                              (case b64decode env image_data of
                                 Inl e \<Rightarrow>
                                   (Json (error_body (str_exn e)) 500, w\<lparr>disk := opened\<rparr>)
                               | Inr b \<Rightarrow>
                                   (Json [(''success'', JBool True),
                                          (''filename'', JStr name),
                                          (''url'', JStr (''/gallery/'' @ name))] 200,
                                    w\<lparr>disk := write_bytes opened f b\<rparr>))))
                | _ \<Rightarrow> (Unhandled (AttributeError ''endswith''), w))
           | _ \<Rightarrow> (Unhandled (TypeError ''argument is not iterable''), w)))"

text \<open>\<^verbatim>\<open>api_gallery_delete\<close>. The first existence check stands before the \<^verbatim>\<open>try\<close>.\<close>

definition api_gallery_delete :: "world \<Rightarrow> string \<Rightarrow> response \<times> world" where
  "api_gallery_delete w filename =
     (let filepath = path_join GALLERY_DIR filename in
      case path_exists (disk w) filepath of
        Inl e \<Rightarrow> (Unhandled e, w)
      | Inr found \<Rightarrow>
          if \<not> found then (Json (error_body ''File not found'') 404, w)
          else
            (case unlink (disk w) filepath of
               Inl e \<Rightarrow> (Json (error_body (str_exn e)) 500, w)
             | Inr fs1 \<Rightarrow>
                 (let thumb_path = path_join THUMBS_DIR filename in
                  case path_exists fs1 thumb_path of
                    Inl e \<Rightarrow> (Json (error_body (str_exn e)) 500, w\<lparr>disk := fs1\<rparr>)
                  | Inr thumb_found \<Rightarrow>
                      if thumb_found
                      then (case unlink fs1 thumb_path of
                              Inl e \<Rightarrow> (Json (error_body (str_exn e)) 500, w\<lparr>disk := fs1\<rparr>)
                            | Inr fs2 \<Rightarrow> (Json [(''success'', JBool True)] 200, w\<lparr>disk := fs2\<rparr>))
                      else (Json [(''success'', JBool True)] 200, w\<lparr>disk := fs1\<rparr>))))"

section \<open>Metadata and thumbnails\<close>

definition xmp_args :: "int \<Rightarrow> int \<Rightarrow> string \<Rightarrow> string list" where
  "xmp_args w h filepath =
     [''exiftool'',
      ''-overwrite_original'',
      ''-XMP-GPano:ProjectionType=equirectangular'',
      ''-XMP-GPano:UsePanoramaViewer=True'',
      ''-XMP-GPano:FullPanoWidthPixels='' @ str_int w,
      ''-XMP-GPano:FullPanoHeightPixels='' @ str_int h,
      ''-XMP-GPano:CroppedAreaImageWidthPixels='' @ str_int w,
      ''-XMP-GPano:CroppedAreaImageHeightPixels='' @ str_int h,
      ''-XMP-GPano:CroppedAreaLeftPixels=0'',
      ''-XMP-GPano:CroppedAreaTopPixels=0'',
      ''-XMP-GPano:InitialViewHeadingDegrees=180'',
      ''-XMP-GPano:InitialViewPitchDegrees=0'',
      ''-XMP-GPano:InitialViewRollDegrees=0'',
      ''-XMP-GPano:InitialHorizontalFOVDegrees=90'',
      filepath]"

text \<open>\<^verbatim>\<open>inject_gpano_metadata\<close>: the boolean it returns, and the files after it. The
  tool rewrites the file in place.\<close>

definition inject_gpano_metadata ::
  "'px env \<Rightarrow> filesystem \<Rightarrow> path \<Rightarrow> bool \<times> filesystem" where
  "inject_gpano_metadata env files filepath =
     (case open_rb files filepath of
        Inl e \<Rightarrow> (False, files)
      | Inr (k, b) \<Rightarrow>
          (case image_size env b of
             Inl e \<Rightarrow> (False, files)
           | Inr (w, h) \<Rightarrow>
               (case exiftool env (xmp_args w h (path_str filepath)) b of
                  Completed returncode stderr b' \<Rightarrow>
                    (if returncode \<noteq> 0 then (False, write_bytes files k b')
                     else (True, write_bytes files k b'))
                | NotInstalled \<Rightarrow> (False, files)
                | RunFailed e \<Rightarrow> (False, files))))"

text \<open>\<^verbatim>\<open>create_thumbnail\<close>: the path of the thumbnail, or \<open>None\<close>, and the files after it.\<close>

definition create_thumbnail ::
  "'px env \<Rightarrow> filesystem \<Rightarrow> path \<Rightarrow> path option \<times> filesystem" where
  "create_thumbnail env files image_path =
     (let thumb_path = path_join THUMBS_DIR (path_name image_path) in
      case open_rb files image_path of
        Inl e \<Rightarrow> (None, files)
      | Inr (k, b) \<Rightarrow>
          (case thumbnail_jpeg env b of
             Inl e \<Rightarrow> (None, files)
           | Inr t \<Rightarrow>
               (case open_wb files thumb_path of
                  Inl e \<Rightarrow> (None, files)
                | Inr (f, opened) \<Rightarrow> (Some thumb_path, write_bytes opened f t))))"

section \<open>Generation\<close>

definition full_prompt :: "json \<Rightarrow> string" where
  "full_prompt prompt =
     ''Generate an image: '' @ py_str prompt @ [CHR 0x0A, CHR 0x0A] @
     ''Use the first image as the reference for final aspect ratio. '' @
     ''This is an equirectangular panorama photo. Keep all the details and composition '' @
     ''but transform the style/setting as described.''"

definition message_text :: "message \<Rightarrow> string \<Rightarrow> json" where
  "message_text msg fallback =
     (case content msg of
        None \<Rightarrow> JStr fallback
      | Some c \<Rightarrow> (if c \<noteq> [] then JStr c else JStr fallback))"

text \<open>
  \<^verbatim>\<open>generate_panorama\<close>: the dict it returns and the state after it. The first picture of
  the answer that is an inline image is the one processed; every exception after the
  client is made ends in \<^verbatim>\<open>{"error": str(e)}\<close>.
\<close>

definition generate_panorama ::
  "'px env \<Rightarrow> world \<Rightarrow> string \<Rightarrow> json \<Rightarrow> json \<Rightarrow> json \<Rightarrow> json \<Rightarrow> json \<Rightarrow> json
     \<Rightarrow> json_obj \<times> world" where
  "generate_panorama env w input_base64 mime_type prompt fix_ratio ratio_mode
       input_width input_height =
     (case api_key env of
        None \<Rightarrow> (error_body ''OPENROUTER_API_KEY not set'', w)
      | Some key \<Rightarrow>
        if key = [] then (error_body ''OPENROUTER_API_KEY not set'', w)
        else
          let url = ''data:'' @ py_str mime_type @ '';base64,'' @ input_base64;
              w = w\<lparr>api_calls := api_calls w @ [(full_prompt prompt, url)]\<rparr>
          in
          case chat_create env (full_prompt prompt) url of
            Inl e \<Rightarrow> (error_body (str_exn e), w)
          | Inr msg \<Rightarrow>
              (case find (\<lambda>image_data. part_type image_data = ''image_url''
                          \<and> startswith (part_url image_data) ''data:image'') (images msg) of
                 None \<Rightarrow>
                   ([(''error'', JStr ''No image generated''),
                     (''message'', message_text msg ''Model did not return an image'')], w)
               | Some image_data \<Rightarrow>
                   (case split1_tail CHR '','' (part_url image_data) of
                      Inl e \<Rightarrow> (error_body (str_exn e), w)
                    | Inr base64_data \<Rightarrow>
                        (case b64decode env base64_data of
                           Inl e \<Rightarrow> (error_body (str_exn e), w)
                         | Inr raw_image \<Rightarrow>
                             (let processed_image =
                                    (if truthy fix_ratio then
                                       (case fix_aspect_ratio env raw_image ratio_mode (black env) of
                                          Inl e \<Rightarrow> raw_image
                                        | Inr p \<Rightarrow> p)
                                     else raw_image);
                                  filename = ''ai_generated_'' @ uuid_hex8 env @ ''_360.jpg'';
                                  filepath = path_join GALLERY_DIR filename
                              in
                              case open_wb (disk w) filepath of
                                Inl e \<Rightarrow> (error_body (str_exn e), w)
                              | Inr (f, opened) \<Rightarrow>
                                  (let written = write_bytes opened f processed_image;
                                       (gpano_success, tagged) =
                                          inject_gpano_metadata env written filepath;
                                       (thumb, files) = create_thumbnail env tagged filepath
                                   in
                                   case open_rb files filepath of
                                     Inl e \<Rightarrow> (error_body (str_exn e), w\<lparr>disk := files\<rparr>)
                                   | Inr (k, final_image) \<Rightarrow>
                                       ([(''success'', JBool True),
                                         (''image'', JStr (b64encode env final_image)),
                                         (''filename'', JStr filename),
                                         (''filepath'', JStr (path_str filepath)),
                                         (''gallery_url'', JStr (''/gallery/'' @ filename)),
                                         (''thumb_url'', JStr (''/gallery/thumbs/'' @ filename)),
                                         (''gpano_injected'', JBool gpano_success),
                                         (''message'',
                                            message_text msg ''Image generated successfully'')],
                                        w\<lparr>disk := files\<rparr>)))))))"

section \<open>Routes\<close>

definition api_generate :: "'px env \<Rightarrow> world \<Rightarrow> json_obj \<Rightarrow> response \<times> world" where
  "api_generate env w data =
     (if data = [] then (Json (error_body ''No JSON data provided'') 400, w)
      else
        let image_data = dict_get data ''image'';
            mime_type = dict_get_default data ''mime_type'' (JStr ''image/jpeg'');
            prompt = dict_get data ''prompt'';
            fix_ratio = dict_get_default data ''fix_ratio'' (JBool True);
            ratio_mode = dict_get_default data ''ratio_mode'' (JStr ''pad'');
            input_width = dict_get data ''width'';
            input_height = dict_get data ''height''
        in
        if \<not> truthy image_data then (Json (error_body ''No image provided'') 400, w)
        else if \<not> truthy prompt then (Json (error_body ''No prompt provided'') 400, w)
        else
          (case image_data of
             JStr s \<Rightarrow>
               (let (result, w') =
                      generate_panorama env w (strip_data_url_prefix s) mime_type prompt
                        fix_ratio ratio_mode input_width input_height
                in if map_of result ''error'' \<noteq> None then (Json result 500, w')
                   else (Json result 200, w'))
           | _ \<Rightarrow> (Unhandled (TypeError ''argument is not iterable''), w)))"


section \<open>Fixtures\<close>

text \<open>What is looked at in a result: the size of the image, one of its pixels, the status
  of a response.\<close>

definition image_dims :: "py_exn + 'px image \<Rightarrow> (int \<times> int) option" where
  "image_dims r = (case r of Inl e \<Rightarrow> None | Inr img \<Rightarrow> Some (width img, height img))"

definition output_pixel :: "py_exn + 'px image \<Rightarrow> int \<Rightarrow> int \<Rightarrow> 'px option" where
  "output_pixel r x y = (case r of Inl e \<Rightarrow> None | Inr img \<Rightarrow> Some (pix img x y))"



text \<open>The server directory after start-up, with one picture and its thumbnail in the
  gallery.\<close>

definition test_world :: world where
  "test_world =
     \<lparr>disk = [([''app''], Dir),
              ([''app'', ''server.py''], File ''import base64''),
              ([''app'', ''viewer.html''], File ''<!DOCTYPE html>''),
              ([''app'', ''gallery''], Dir),
              ([''app'', ''gallery'', ''thumbs''], Dir),
              ([''app'', ''gallery'', ''photo.jpg''], File ''pano''),
              ([''app'', ''gallery'', ''thumbs'', ''photo.jpg''], File ''thumb'')],
      api_calls = []\<rparr>"

text \<open>An all-white RGB image; pixels are numbers, black is 0.\<close>

definition test_image :: "int \<Rightarrow> int \<Rightarrow> nat image" where
  "test_image w h =
     \<lparr>mode = ''RGB'', width = w, height = h, pix = (\<lambda>x y. 1), alpha = (\<lambda>x y. 255)\<rparr>"

text \<open>
  An environment to run the routes in: base64 is the identity, two byte strings are
  images, every encoded image reads back as the 6000 by 3000 one, resampling takes the
  nearest pixel, the metadata tool succeeds, and the generation API answers with one
  inline picture whose bytes are no image.
\<close>

definition test_env :: "nat env" where
  "test_env =
     \<lparr>api_key = Some ''sk-test'',
      chat_create = (\<lambda>prompt url.
        Inr \<lparr>content = None,
             images = [\<lparr>part_type = ''image_url'',
                        part_url = ''data:image/png;base64,garbage''\<rparr>]\<rparr>),
      uuid_hex8 = ''0a1b2c3d'',
      b64decode = (\<lambda>s. Inr s),
      b64encode = (\<lambda>b. b),
      image_open = (\<lambda>b.
        if b = ''square'' then Inr (test_image 4000 4000)
        else if b = ''pano'' then Inr (test_image 6000 3000)
        else Inl (OtherException ''cannot identify image file'')),
      image_size = (\<lambda>b.
        if b = ''square'' then Inr (4000, 4000)
        else if b = ''pano'' then Inr (6000, 3000)
        else Inl (OtherException ''cannot identify image file'')),
      black = 0,
      composite = (\<lambda>p a bg. if a = 0 then bg else p),
      lanczos = (\<lambda>img sz x y. pix img (x * width img div fst sz) (y * height img div snd sz)),
      save_jpeg = (\<lambda>img quality. ''pano''),
      thumbnail_jpeg = (\<lambda>b.
        if b = ''garbage'' then Inl (OtherException ''cannot identify image file'')
        else Inr ''thumb''),
      exiftool = (\<lambda>args b. Completed 0 [] (b @ ''+gpano''))\<rparr>"

subsection \<open>Facts about names and the overwrite-avoiding loop\<close>

lemma endswith_iff: "endswith s suf \<longleftrightarrow> (\<exists>p. s = p @ suf)"
proof
  assume "endswith s suf"
  then have "s = take (length s - length suf) s @ suf"
    by (metis append_take_drop_id endswith_def)
  then show "\<exists>p. s = p @ suf" ..
next
  assume "\<exists>p. s = p @ suf"
  then show "endswith s suf" by (auto simp: endswith_def)
qed

lemma rsplit1_head_append:
  assumes "c \<notin> set q"
  shows "rsplit1_head c (p @ c # q) = p"
proof -
  have "dropWhile (\<lambda>x. x \<noteq> c) (rev q @ c # rev p) = dropWhile (\<lambda>x. x \<noteq> c) (c # rev p)"
    by (rule dropWhile_append2) (use assms in auto)
  then show ?thesis by (simp add: rsplit1_head_def)
qed

lemma rsplit1_head_no_sep: "c \<notin> set s \<Longrightarrow> rsplit1_head c s = s"
  by (simp add: rsplit1_head_def)

lemma endswith_ensure_jpg_extension: "endswith (ensure_jpg_extension name) ''.jpg''"
  by (auto simp: ensure_jpg_extension_def endswith_iff)

lemma rsplit1_head_jpg: "endswith n ''.jpg'' \<Longrightarrow> rsplit1_head CHR ''.'' n @ ''.jpg'' = n"
proof -
  assume "endswith n ''.jpg''"
  then obtain p where n: "n = p @ CHR ''.'' # ''jpg''" by (auto simp: endswith_iff)
  have "rsplit1_head CHR ''.'' (p @ CHR ''.'' # ''jpg'') = p"
    by (rule rsplit1_head_append) simp
  with n show ?thesis by simp
qed

lemma endswith_numbered: "endswith (numbered stem k) ''.jpg''"
  by (auto simp: numbered_def endswith_iff)

lemma ensure_jpg_extension_dot:
  assumes "CHR ''.'' \<notin> set q" "\<not> endswith (p @ ''.'' @ q) ''.jpg''"
  shows "ensure_jpg_extension (p @ ''.'' @ q) = p @ ''.jpg''"
  using assms rsplit1_head_append [of "CHR ''.''" q p]
  by (simp add: ensure_jpg_extension_def)

lemma ensure_jpg_extension_dotless:
  assumes "CHR ''.'' \<notin> set m"
  shows "ensure_jpg_extension m = m @ ''.jpg''"
proof -
  have "\<not> endswith m ''.jpg''"
    using assms by (auto simp: endswith_iff)
  with assms show ?thesis
    by (simp add: ensure_jpg_extension_def rsplit1_head_no_sep)
qed


lemma char_of_49: "char_of (49 :: nat) = CHR ''1''"
  by code_simp

lemma str_nat_1: "str_nat 1 = ''1''"
  by (subst str_nat.simps) (simp add: digit_char_def char_of_49)

lemma avoid_overwriting_absent:
  "path_exists files (path_join GALLERY_DIR name) = Inr False \<Longrightarrow>
   avoid_overwriting files stem name c = Inr name"
  by (subst avoid_overwriting.simps) simp

lemma avoid_overwriting_raises:
  "path_exists files (path_join GALLERY_DIR name) = Inl e \<Longrightarrow>
   avoid_overwriting files stem name c = Inl e"
  by (subst avoid_overwriting.simps) simp

lemma avoid_overwriting_step:
  "path_exists files (path_join GALLERY_DIR name) = Inr True \<Longrightarrow>
   avoid_overwriting files stem name c
     = avoid_overwriting files stem (numbered stem c) (c + 1)"
  by (subst avoid_overwriting.simps) simp

lemma avoid_overwriting_skip:
  assumes "\<forall>j. c \<le> j \<and> j < c + d \<longrightarrow>
      path_exists files (path_join GALLERY_DIR (numbered stem j)) = Inr True"
  shows "avoid_overwriting files stem (numbered stem c) (c + 1)
     = avoid_overwriting files stem (numbered stem (c + d)) (c + d + 1)"
  using assms
proof (induction d)
  case 0
  show ?case by simp
next
  case (Suc d)
  then have "avoid_overwriting files stem (numbered stem c) (c + 1)
     = avoid_overwriting files stem (numbered stem (c + d)) (c + d + 1)" by simp
  also have "\<dots> = avoid_overwriting files stem (numbered stem (c + d + 1)) (c + d + 1 + 1)"
    using Suc.prems by (intro avoid_overwriting_step) simp
  finally show ?case by simp
qed

lemma avoid_overwriting_first_free:
  assumes "path_exists files (path_join GALLERY_DIR name) = Inr True"
    and "c \<le> k"
    and "\<forall>j. c \<le> j \<and> j < k \<longrightarrow>
      path_exists files (path_join GALLERY_DIR (numbered stem j)) = Inr True"
  shows "avoid_overwriting files stem name c
     = (case path_exists files (path_join GALLERY_DIR (numbered stem k)) of
          Inl e \<Rightarrow> Inl e
        | Inr found \<Rightarrow> if found then avoid_overwriting files stem (numbered stem (k + 1)) (k + 2)
                       else Inr (numbered stem k))"
proof -
  from assms(2) obtain d where k: "k = c + d" using le_Suc_ex by blast
  have "avoid_overwriting files stem name c
      = avoid_overwriting files stem (numbered stem c) (c + 1)"
    by (rule avoid_overwriting_step [OF assms(1)])
  also have "\<dots> = avoid_overwriting files stem (numbered stem k) (k + 1)"
    unfolding k using assms(3) by (intro avoid_overwriting_skip) (simp add: k)
  also have "\<dots> = (case path_exists files (path_join GALLERY_DIR (numbered stem k)) of
          Inl e \<Rightarrow> Inl e
        | Inr found \<Rightarrow> if found then avoid_overwriting files stem (numbered stem (k + 1)) (k + 2)
                       else Inr (numbered stem k))"
    by (subst avoid_overwriting.simps) (auto split: sum.split)
  finally show ?thesis .
qed

lemma avoid_overwriting_result:
  "avoid_overwriting files stem name c = Inr fn \<Longrightarrow>
   path_exists files (path_join GALLERY_DIR fn) = Inr False
   \<and> (fn = name \<or> (\<exists>k\<ge>c. fn = numbered stem k
          \<and> path_exists files (path_join GALLERY_DIR name) = Inr True))"
proof (induction files stem name c rule: avoid_overwriting.induct)
  case (1 files stem name c)
  show ?case
  proof (cases "path_exists files (path_join GALLERY_DIR name) = Inr True")
    case True
    with 1(2) have "avoid_overwriting files stem (numbered stem c) (c + 1) = Inr fn"
      by (simp add: avoid_overwriting_step)
    from 1(1) [OF True this] True show ?thesis
      by (auto intro: exI [of _ c]) (metis Suc_leD)
  next
    case False
    with 1(2) show ?thesis
      by (subst (asm) avoid_overwriting.simps) (auto split: sum.splits)
  qed
qed

subsection \<open>Facts about the file system\<close>













lemma parts_plain:
  "CHR ''/'' \<notin> set name \<Longrightarrow> name \<noteq> [] \<Longrightarrow> name \<noteq> ''.'' \<Longrightarrow> parts name = [name]"
  by (simp add: parts_def split_on_no_sep)

lemma path_join_plain:
  "CHR ''/'' \<notin> set name \<Longrightarrow> name \<noteq> [] \<Longrightarrow> name \<noteq> ''.'' \<Longrightarrow>
   path_join d name = d @ [name]"
  by (cases name) (auto simp: path_join_def parts_plain startswith_def)

lemma set_path_str: "p \<noteq> [] \<Longrightarrow> set (path_str p) = insert CHR ''/'' (\<Union> (set ` set p))"
  by (induction p) (auto simp: path_str_def)

lemma length_path_str_snoc:
  "length (path_str (d @ [c])) = (if d = [] then 0 else length (path_str d)) + 1 + length c"
  by (induction d) (auto simp: path_str_def)

lemma length_path_str_GALLERY_DIR: "length (path_str GALLERY_DIR) = 12"
  by (simp add: path_str_def GALLERY_DIR_def SERVER_DIR_def)

lemma walk_gallery_entry:
  assumes "gallery_ready files" and "c \<noteq> ''..''"
  shows "walk files p [] (GALLERY_DIR @ [c])
    = (if NAME_MAX < length c then Inl (ENAMETOOLONG p) else Inr (GALLERY_DIR @ [c]))"
  using assms
  by (simp add: gallery_ready_def GALLERY_DIR_def SERVER_DIR_def is_dir_def NAME_MAX_def)

subsection \<open>Facts about the pipelines\<close>





subsection \<open>Facts about rounding\<close>

lemma powi_two_pos: "0 < (2::rat) powi k"
  by simp

lemma powi_two_le_iff: "(2::rat) powi a \<le> 2 powi b \<longleftrightarrow> a \<le> b"
proof
  assume le: "(2::rat) powi a \<le> 2 powi b"
  show "a \<le> b"
  proof (rule ccontr)
    assume "\<not> a \<le> b"
    then have "(2::rat) powi b < 2 powi a"
      by (intro power_int_strict_increasing) auto
    with le show False by simp
  qed
next
  assume "a \<le> b"
  then show "(2::rat) powi a \<le> 2 powi b"
    by (intro power_int_increasing) auto
qed

lemma powi_two_less_iff: "(2::rat) powi a < 2 powi b \<longleftrightarrow> a < b"
  by (meson linorder_not_le powi_two_le_iff)

lemma bitlen_bounds_rat:
  assumes "0 < a"
  shows "(2::rat) powi (bitlen a - 1) \<le> of_int a" and "of_int a < (2::rat) powi bitlen a"
proof -
  from assms have b1: "1 \<le> bitlen a"
    by (simp add: bitlen_ge_iff_power)
  from bitlen_bounds [OF assms] have lo: "2 ^ nat (bitlen a - 1) \<le> a" and hi: "a < 2 ^ nat (bitlen a)"
    by auto
  have "(2::rat) powi (bitlen a - 1) = 2 ^ nat (bitlen a - 1)"
    using b1 by (simp add: power_int_nonneg_exp)
  also have "\<dots> = of_int (2 ^ nat (bitlen a - 1))" by simp
  also have "\<dots> \<le> of_int a" using lo by (simp only: of_int_le_iff)
  finally show "(2::rat) powi (bitlen a - 1) \<le> of_int a" .
  have "of_int a < (of_int (2 ^ nat (bitlen a)) :: rat)" using hi by (simp only: of_int_less_iff)
  also have "\<dots> = 2 ^ nat (bitlen a)" by simp
  also have "\<dots> = (2::rat) powi bitlen a"
    using b1 by (simp add: power_int_nonneg_exp)
  finally show "of_int a < (2::rat) powi bitlen a" .
qed

lemma float_exponent_bounds:
  assumes "0 < x"
  shows "2 powi float_exponent x \<le> x \<and> x < 2 powi (float_exponent x + 1)"
proof -
  obtain a b where q: "quotient_of x = (a, b)" by (cases "quotient_of x")
  then have b: "0 < b" and x: "x = of_int a / of_int b"
    by (auto simp: quotient_of_denom_pos quotient_of_div)
  from assms x b have a: "0 < a"
    by (simp add: zero_less_divide_iff)
  let ?e = "bitlen a - bitlen b"
  have xb: "x * of_int b = of_int a" using x b by simp
  have lower: "2 powi (?e - 1) < x"
  proof -
    have "2 powi (?e - 1) * of_int b < 2 powi (?e - 1) * (2::rat) powi bitlen b"
      using bitlen_bounds_rat(2) [OF b] by simp
    also have "\<dots> = 2 powi (bitlen a - 1)"
      by (simp flip: power_int_add)
    also have "\<dots> \<le> of_int a" by (rule bitlen_bounds_rat(1) [OF a])
    finally have "2 powi (?e - 1) * of_int b < x * of_int b" using xb by simp
    with b show ?thesis by simp
  qed
  have upper: "x < 2 powi (?e + 1)"
  proof -
    have "x * of_int b < (2::rat) powi bitlen a"
      using bitlen_bounds_rat(2) [OF a] xb by simp
    also have "\<dots> = 2 powi (?e + 1) * 2 powi (bitlen b - 1)"
      by (simp flip: power_int_add)
    also have "\<dots> \<le> 2 powi (?e + 1) * of_int b"
      using bitlen_bounds_rat(1) [OF b] by simp
    finally show ?thesis using b by simp
  qed
  show ?thesis
  proof (cases "2 powi ?e \<le> x")
    case True
    then have "float_exponent x = ?e" by (simp add: float_exponent_def q)
    with True upper show ?thesis by simp
  next
    case False
    then have "float_exponent x = ?e - 1" by (simp add: float_exponent_def q)
    with False lower show ?thesis by simp
  qed
qed

lemma float_exponent_unique:
  assumes "0 < x" "2 powi e \<le> x" "x < 2 powi (e + 1)"
  shows "float_exponent x = e"
proof -
  from float_exponent_bounds [OF assms(1)]
  have l: "2 powi float_exponent x \<le> x" and u: "x < 2 powi (float_exponent x + 1)" by auto
  from l assms(3) have "(2::rat) powi float_exponent x < 2 powi (e + 1)" by simp
  then have 1: "float_exponent x < e + 1" by (simp only: powi_two_less_iff)
  from assms(2) u have "(2::rat) powi e < 2 powi (float_exponent x + 1)" by simp
  then have 2: "e < float_exponent x + 1" by (simp only: powi_two_less_iff)
  from 1 2 show ?thesis by simp
qed

lemma round_half_even_of_int: "round_half_even (of_int n) = n"
  by (simp add: round_half_even_def)

lemma round_half_even_cases: "round_half_even x = \<lfloor>x\<rfloor> \<or> round_half_even x = \<lfloor>x\<rfloor> + 1 \<and> of_int \<lfloor>x\<rfloor> < x"
  by (auto simp: round_half_even_def Let_def)

lemma round_half_even_ge:
  assumes "of_int m \<le> x"
  shows "m \<le> round_half_even x"
proof -
  from assms have "m \<le> \<lfloor>x\<rfloor>" by (simp add: le_floor_iff)
  with round_half_even_cases [of x] show ?thesis by auto
qed

lemma round_half_even_le:
  assumes "x \<le> of_int m"
  shows "round_half_even x \<le> m"
proof -
  from floor_mono [OF assms] have f: "\<lfloor>x\<rfloor> \<le> m" by simp
  from round_half_even_cases [of x] show ?thesis
  proof
    assume "round_half_even x = \<lfloor>x\<rfloor>" with f show ?thesis by simp
  next
    assume h: "round_half_even x = \<lfloor>x\<rfloor> + 1 \<and> of_int \<lfloor>x\<rfloor> < x"
    then have "of_int \<lfloor>x\<rfloor> < (of_int m :: rat)" using assms by simp
    then have "\<lfloor>x\<rfloor> < m" by (simp only: of_int_less_iff)
    with h show ?thesis by simp
  qed
qed

lemma fl_exact:
  assumes m: "\<bar>m\<bar> < 2 ^ 53"
  shows "fl (of_int m * 2 powi k) = of_int m * 2 powi k"
proof (cases "m = 0")
  case True
  then show ?thesis by (simp add: fl_def)
next
  case False
  let ?x = "of_int m * (2::rat) powi k"
  let ?e = "float_exponent \<bar>?x\<bar>"
  have ax: "\<bar>?x\<bar> = of_int \<bar>m\<bar> * 2 powi k" by (simp add: abs_mult)
  have pos: "0 < \<bar>?x\<bar>" using False by simp
  from float_exponent_bounds [OF pos] have lo: "2 powi ?e \<le> \<bar>?x\<bar>" by simp
  have "of_int \<bar>m\<bar> < (of_int (2 ^ 53) :: rat)" using m by (simp only: of_int_less_iff)
  then have "of_int \<bar>m\<bar> < (2::rat) powi 53" by simp
  then have "\<bar>?x\<bar> < 2 powi 53 * 2 powi k" unfolding ax by simp
  also have "\<dots> = 2 powi (53 + k)" using power_int_add [of "2::rat" 53 k] by simp
  finally have "(2::rat) powi ?e < 2 powi (53 + k)" using lo by simp
  then have "?e < 53 + k" by (simp only: powi_two_less_iff)
  then have n: "0 \<le> k - (?e - 52)" by simp
  define n where "n = nat (k - (?e - 52))"
  have "\<bar>?x\<bar> / 2 powi (?e - 52) = of_int \<bar>m\<bar> * (2 powi k / 2 powi (?e - 52))"
    unfolding ax by simp
  also have "2 powi k / (2::rat) powi (?e - 52) = 2 powi (k - (?e - 52))"
    by (simp add: power_int_diff)
  also have "\<dots> = 2 ^ n" using n by (simp add: n_def power_int_nonneg_exp)
  finally have sc: "\<bar>?x\<bar> / 2 powi (?e - 52) = of_int (\<bar>m\<bar> * 2 ^ n)" by simp
  have "fl ?x = sgn ?x * of_int (round_half_even (\<bar>?x\<bar> / 2 powi (?e - 52))) * 2 powi (?e - 52)"
    using False by (simp add: fl_def Let_def)
  also have "\<dots> = sgn ?x * (\<bar>?x\<bar> / 2 powi (?e - 52)) * 2 powi (?e - 52)"
    by (simp only: sc round_half_even_of_int)
  also have "\<dots> = sgn ?x * \<bar>?x\<bar>" by simp
  also have "\<dots> = ?x" by (simp add: sgn_mult_abs)
  finally show ?thesis .
qed

lemma fl_of_int: "\<bar>m\<bar> < 2 ^ 53 \<Longrightarrow> fl (of_int m) = of_int m"
  using fl_exact [of m 0] by simp

lemma fl_of_int_double: "\<bar>m\<bar> < 2 ^ 53 \<Longrightarrow> fl (of_int m * 2) = of_int m * 2"
  using fl_exact [of m 1] by simp

lemma fl_of_int_half: "\<bar>m\<bar> < 2 ^ 53 \<Longrightarrow> fl (of_int m / 2) = of_int m / 2"
  using fl_exact [of m "- 1"] by (simp add: power_int_minus field_simps)

lemma fl_binade:
  assumes "0 < x"
  shows "2 powi float_exponent x \<le> fl x \<and> fl x \<le> 2 powi (float_exponent x + 1)"
proof -
  let ?e = "float_exponent x"
  let ?u = "(2::rat) powi (?e - 52)"
  from float_exponent_bounds [OF assms] have lo: "2 powi ?e \<le> x" and hi: "x < 2 powi (?e + 1)"
    by auto
  have u: "0 < ?u" by simp
  have e: "(2::rat) powi ?e = 2 ^ 52 * ?u"
    using power_int_add [of "2::rat" 52 "?e - 52"] by simp
  have e1: "(2::rat) powi (?e + 1) = 2 ^ 53 * ?u"
    using power_int_add [of "2::rat" 53 "?e - 52"] by (simp add: add.commute)
  have "of_int (2 ^ 52) \<le> x / ?u" using lo u unfolding e by (simp add: pos_le_divide_eq)
  then have r1: "2 ^ 52 \<le> round_half_even (x / ?u)" by (rule round_half_even_ge)
  have "x / ?u \<le> of_int (2 ^ 53)" using hi u unfolding e1 by (simp add: pos_divide_le_eq)
  then have r2: "round_half_even (x / ?u) \<le> 2 ^ 53" by (rule round_half_even_le)
  have f: "fl x = of_int (round_half_even (x / ?u)) * ?u"
    using assms by (simp add: fl_def Let_def)
  have "(2::rat) ^ 52 * ?u \<le> of_int (round_half_even (x / ?u)) * ?u"
  proof (rule mult_right_mono)
    have "(of_int (2 ^ 52) :: rat) \<le> of_int (round_half_even (x / ?u))"
      using r1 by (simp only: of_int_le_iff)
    then show "(2::rat) ^ 52 \<le> of_int (round_half_even (x / ?u))" by simp
  qed simp
  moreover have "of_int (round_half_even (x / ?u)) * ?u \<le> (2::rat) ^ 53 * ?u"
  proof (rule mult_right_mono)
    have "(of_int (round_half_even (x / ?u)) :: rat) \<le> of_int (2 ^ 53)"
      using r2 by (simp only: of_int_le_iff)
    then show "of_int (round_half_even (x / ?u)) \<le> (2::rat) ^ 53" by simp
  qed simp
  ultimately show ?thesis unfolding e e1 f by simp
qed

lemma fl_two: "fl 2 = 2"
  using fl_of_int [of 2] by simp

lemma fl_le_two:
  assumes "x \<le> 2"
  shows "fl x \<le> 2"
proof -
  consider "x = 0" | "x < 0" | "0 < x" "x < 2" | "x = 2" using assms by fastforce
  then show ?thesis
  proof cases
    case 1 then show ?thesis by (simp add: fl_def)
  next
    case 2
    let ?u = "(2::rat) powi (float_exponent \<bar>x\<bar> - 52)"
    have "of_int 0 \<le> \<bar>x\<bar> / ?u" by simp
    then have "0 \<le> round_half_even (\<bar>x\<bar> / ?u)" by (rule round_half_even_ge)
    then have "0 \<le> (of_int (round_half_even (\<bar>x\<bar> / ?u)) :: rat) * ?u" by simp
    moreover have "fl x = - (of_int (round_half_even (\<bar>x\<bar> / ?u)) * ?u)"
      using 2 by (simp add: fl_def Let_def)
    ultimately show ?thesis by simp
  next
    case 3
    from float_exponent_bounds [OF 3(1)] 3(2) have "(2::rat) powi float_exponent x < 2 powi 1"
      by simp
    then have "float_exponent x + 1 \<le> 1" by (simp only: powi_two_less_iff)
    then have "(2::rat) powi (float_exponent x + 1) \<le> 2 powi 1" by (simp only: powi_two_le_iff)
    with fl_binade [OF 3(1)] show ?thesis by simp
  next
    case 4 then show ?thesis by (simp add: fl_two)
  qed
qed

lemma fl_ge_two:
  assumes "2 \<le> x"
  shows "2 \<le> fl x"
proof -
  from assms have pos: "0 < x" by simp
  from float_exponent_bounds [OF pos] assms have "(2::rat) powi 1 < 2 powi (float_exponent x + 1)"
    by simp
  then have "1 \<le> float_exponent x" by (simp only: powi_two_less_iff)
  then have "(2::rat) powi 1 \<le> 2 powi float_exponent x" by (simp only: powi_two_le_iff)
  with fl_binade [OF pos] show ?thesis by simp
qed

lemma py_int_of_int: "py_int (of_int k) = k"
  by (simp add: py_int_def)

lemma py_int_double:
  assumes "0 \<le> h" "h < 2 ^ 53"
  shows "py_int (fl (fl (of_int h) * 2)) = 2 * h"
proof -
  from assms have a: "\<bar>h\<bar> < 2 ^ 53" by simp
  have "fl (fl (of_int h) * 2) = of_int h * 2"
    by (simp only: fl_of_int [OF a] fl_of_int_double [OF a])
  also have "\<dots> = of_int (2 * h)" by simp
  finally show ?thesis by (simp only: py_int_of_int)
qed

lemma py_int_half:
  assumes "0 \<le> w" "w < 2 ^ 53"
  shows "py_int (fl (fl (of_int w) / 2)) = w div 2"
proof -
  from assms have a: "\<bar>w\<bar> < 2 ^ 53" by simp
  have "fl (fl (of_int w) / 2) = of_int w / 2"
    by (simp only: fl_of_int [OF a] fl_of_int_half [OF a])
  then have e: "fl (fl (of_int w) / 2) = of_int w / of_int 2" by simp
  have "0 \<le> (of_int w :: rat) / of_int 2" using assms by simp
  then have "py_int (of_int w / of_int 2) = \<lfloor>(of_int w :: rat) / of_int 2\<rfloor>"
    by (simp only: py_int_def if_True)
  also have "\<dots> = w div 2" by (rule floor_divide_of_int_eq)
  finally show ?thesis by (simp only: e)
qed

lemma fl_hundredth: "fl (1 / 100) = 5764607523034235 / 576460752303423488"
  by code_simp

lemma fl_hundredth_pos: "0 < fl (1 / 100)"
  unfolding fl_hundredth by simp

lemma fl_zero: "fl 0 = 0"
  by (simp add: fl_def)

lemma ratio_two_already:
  assumes "fl (of_int w / of_int h) = 2"
  shows "already_2_1 w h"
proof -
  have "\<bar>fl (fl (of_int w / of_int h) - 2)\<bar> = 0"
    by (simp only: assms) (simp add: fl_zero)
  then show ?thesis
    unfolding already_2_1_def using fl_hundredth_pos by (simp only:)
qed

lemma exact_2_1_already:
  assumes "h \<noteq> 0"
  shows "already_2_1 (2 * h) h"
proof -
  have "(of_int (2 * h) :: rat) / of_int h = 2" using assms by simp
  then have "fl (of_int (2 * h) / of_int h) = 2" by (simp only: fl_two)
  then show ?thesis by (rule ratio_two_already)
qed

lemma ratio_gt_two_iff:
  assumes h: "0 < h" and n: "\<not> already_2_1 w h"
  shows "2 < fl (of_int w / of_int h) \<longleftrightarrow> 2 * h < w"
proof
  assume g: "2 < fl (of_int w / of_int h)"
  show "2 * h < w"
  proof (rule ccontr)
    assume "\<not> 2 * h < w"
    then have "w \<le> 2 * h" by simp
    then have "(of_int w :: rat) \<le> of_int (2 * h)" by (simp only: of_int_le_iff)
    then have "(of_int w :: rat) \<le> 2 * of_int h" by simp
    then have "(of_int w :: rat) / of_int h \<le> 2" using h by (simp add: pos_divide_le_eq)
    from fl_le_two [OF this] g show False by simp
  qed
next
  assume "2 * h < w"
  then have "2 * h \<le> w" by simp
  then have "(of_int (2 * h) :: rat) \<le> of_int w" by (simp only: of_int_le_iff)
  then have "2 * (of_int h :: rat) \<le> of_int w" by simp
  then have "2 \<le> (of_int w :: rat) / of_int h" using h by (simp add: pos_le_divide_eq)
  from fl_ge_two [OF this] have ge: "2 \<le> fl (of_int w / of_int h)" .
  have "fl (of_int w / of_int h) \<noteq> 2"
  proof
    assume "fl (of_int w / of_int h) = 2"
    then have "already_2_1 w h" by (rule ratio_two_already)
    with n show False ..
  qed
  with ge show "2 < fl (of_int w / of_int h)" by simp
qed

lemma not_already_not_exact:
  assumes "0 < h" "\<not> already_2_1 w h"
  shows "w \<noteq> 2 * h"
  using assms exact_2_1_already [of h] by auto

subsection \<open>Facts about the reshaping\<close>

lemma width_to_rgb [simp]: "width (to_rgb env img bg) = width img"
  by (simp add: to_rgb_def image_new_def paste_def paste_mask_def convert_rgb_def Let_def)

lemma height_to_rgb [simp]: "height (to_rgb env img bg) = height img"
  by (simp add: to_rgb_def image_new_def paste_def paste_mask_def convert_rgb_def Let_def)

lemma fix_aspect_ratio_image_exact:
  assumes "0 < height opened" "0 \<le> width opened"
    and "width opened < 2 ^ 53" "height opened < 2 ^ 53"
  shows "fix_aspect_ratio_image env opened md bg =
     (let img = to_rgb env opened bg; w = width opened; h = height opened in
      if already_2_1 w h then Inr (if w < 6000 then resize env img (6000, 3000) else img)
      else
        let img' =
          (if md = JStr ''stretch'' then resize env img (w, w div 2)
           else if md = JStr ''crop'' then
             (if 2 * h < w
              then crop env img ((w - 2 * h) div 2, 0, (w - 2 * h) div 2 + 2 * h, h)
              else crop env img (0, (h - w div 2) div 2, w, (h - w div 2) div 2 + w div 2))
           else
             (if 2 * h < w
              then paste (image_new (w, w div 2) bg) img (0, (w div 2 - h) div 2)
              else paste (image_new (2 * h, h) bg) img ((2 * h - w) div 2, 0)))
        in Inr (if width img' < 6000 then resize env img' (6000, 3000) else img'))"
proof -
  have h0: "0 \<le> height opened" using assms(1) by simp
  note d = py_int_double [OF h0 assms(4)]
  note hf = py_int_half [OF assms(2) assms(3)]
  show ?thesis
  proof (cases "already_2_1 (width opened) (height opened)")
    case True
    with assms(1) show ?thesis
      by (simp add: fix_aspect_ratio_image_def Let_def DEFAULT_WIDTH_def DEFAULT_HEIGHT_def)
  next
    case False
    note r = ratio_gt_two_iff [OF assms(1) False]
    from assms(1) False show ?thesis
      by (simp add: fix_aspect_ratio_image_def Let_def DEFAULT_WIDTH_def DEFAULT_HEIGHT_def d hf r)
  qed
qed

lemma not_already_4000_4000: "\<not> already_2_1 4000 4000"
  by code_simp

lemma not_already_8060_4000: "\<not> already_2_1 8060 4000"
  by code_simp

lemma not_already_7001_7001: "\<not> already_2_1 7001 7001"
  by code_simp


subsection \<open>Facts about the fixtures\<close>

lemma gallery_ready_test_world: "gallery_ready (disk test_world)"
  by (simp add: gallery_ready_def test_world_def is_dir_def GALLERY_DIR_def SERVER_DIR_def)











section \<open>Images that are already 2:1\<close>

text \<open>
  C3, as the claim states it, fails: the tolerance of the early return is
  \<^verbatim>\<open>abs(width / height - 2.0) < 0.01\<close>, an absolute 0.01 and not one percent of the
  ratio. An 8060 by 4000 image has ratio 2.015, inside [1.98, 2.02], and in mode pad it
  is padded to 8060 by 4030: the pixel at the top left of the output is background where
  the source is white.
\<close>

theorem ratio_2015_is_padded:
  "198 / 100 \<le> (8060 :: rat) / 4000 \<and> (8060 :: rat) / 4000 \<le> 202 / 100
   \<and> image_dims (fix_aspect_ratio_image test_env (test_image 8060 4000) (JStr ''pad'') 0)
       = Some (8060, 4030)
   \<and> output_pixel (fix_aspect_ratio_image test_env (test_image 8060 4000) (JStr ''pad'') 0) 0 0
       = Some 0
   \<and> pix (test_image 8060 4000) 0 0 = 1"
proof -
  have e: "fix_aspect_ratio_image test_env (test_image 8060 4000) (JStr ''pad'') 0
      = Inr (paste (image_new (8060, 4030) 0) (to_rgb test_env (test_image 8060 4000) 0) (0, 15))"
    using not_already_8060_4000
    by (subst fix_aspect_ratio_image_exact) (simp_all add: test_image_def paste_def image_new_def)
  show ?thesis
    unfolding e by (simp add: image_dims_def output_pixel_def paste_def image_new_def test_image_def)
qed

text \<open>
  C3, amended. For every image that opens with a non-zero height and whose ratio, in
  float arithmetic, differs from 2.0 by less than 0.01 (\<open>already_2_1\<close>), in every mode
  the normalizer neither crops nor pads nor stretches: what it encodes as JPEG at
  quality 95 is the image converted to RGB, resized to 6000 by 3000 when its width is
  below 6000 and as it is otherwise.
\<close>

theorem already_2_1_only_upscaled:
  assumes "image_open env image_data = Inr opened"
    and "height opened \<noteq> 0"
    and "already_2_1 (width opened) (height opened)"
  shows "fix_aspect_ratio env image_data md bg =
    Inr (save_jpeg env
          (if width opened < 6000 then resize env (to_rgb env opened bg) (6000, 3000)
           else to_rgb env opened bg) 95)"
  using assms
  by (simp add: fix_aspect_ratio_def fix_aspect_ratio_image_def Let_def
      DEFAULT_WIDTH_def DEFAULT_HEIGHT_def)

theorem already_2_1_only_upscaled_witness:
  "image_open test_env ''pano'' = Inr (test_image 6000 3000)
   \<and> height (test_image 6000 3000) \<noteq> 0
   \<and> already_2_1 (width (test_image 6000 3000)) (height (test_image 6000 3000))
   \<and> fix_aspect_ratio test_env ''pano'' (JStr ''crop'') 0
       = Inr (save_jpeg test_env (to_rgb test_env (test_image 6000 3000) 0) 95)"
proof -
  have h1: "image_open test_env ''pano'' = Inr (test_image 6000 3000)"
    by (simp add: test_env_def)
  have h2: "height (test_image 6000 3000) \<noteq> 0"
    by (simp add: test_image_def)
  have h3: "already_2_1 (width (test_image 6000 3000)) (height (test_image 6000 3000))"
    using exact_2_1_already [of 3000] by (simp add: test_image_def)
  show ?thesis
    using h1 h2 h3 already_2_1_only_upscaled [OF h1 h2 h3, of "JStr ''crop''" 0]
    by (simp add: test_image_def)
qed


section \<open>A square image in mode pad\<close>

text \<open>
  C2, as the claim states it, fails: a 4000 by 4000 image is too tall for 2:1, so the pad
  branch adds the bars at the left and at the right. Of the 8000 by 4000 output of an
  all-white square on a black background, the pixel in the middle of the top row is white
  (image content, not background) and the pixel in the middle of the left column is black.
\<close>

theorem square_4000_pad_counterexample:
  "image_dims (fix_aspect_ratio_image test_env (test_image 4000 4000) (JStr ''pad'') 0)
     = Some (8000, 4000)
   \<and> output_pixel (fix_aspect_ratio_image test_env (test_image 4000 4000) (JStr ''pad'') 0) 4000 0
     = Some 1
   \<and> output_pixel (fix_aspect_ratio_image test_env (test_image 4000 4000) (JStr ''pad'') 0) 0 2000
     = Some 0"
proof -
  have e: "fix_aspect_ratio_image test_env (test_image 4000 4000) (JStr ''pad'') 0
      = Inr (paste (image_new (8000, 4000) 0) (to_rgb test_env (test_image 4000 4000) 0) (2000, 0))"
    using not_already_4000_4000
    by (subst fix_aspect_ratio_image_exact) (simp_all add: test_image_def paste_def image_new_def)
  show ?thesis
    unfolding e
    by (simp add: image_dims_def output_pixel_def paste_def image_new_def test_image_def to_rgb_def)
qed

text \<open>
  C2, amended. For a 4000 by 4000 input in mode pad the normalizer encodes, as JPEG at
  quality 95, an 8000 by 4000 image in which the square content is centred horizontally,
  in the columns 2000 to 5999, and the regions at its left and right are filled with the
  background colour. No resampling takes place: 8000 is not below 6000.
\<close>

theorem square_4000_pad:
  assumes "image_open env image_data = Inr opened"
    and "width opened = 4000" and "height opened = 4000"
  shows "\<exists>out. fix_aspect_ratio env image_data (JStr ''pad'') bg = Inr (save_jpeg env out 95)
    \<and> width out = 8000 \<and> height out = 4000
    \<and> (\<forall>x y. pix out x y =
          (if 2000 \<le> x \<and> x < 6000 \<and> 0 \<le> y \<and> y < 4000
           then pix (to_rgb env opened bg) (x - 2000) y else bg))"
proof -
  let ?out = "paste (image_new (8000, 4000) bg) (to_rgb env opened bg) (2000, 0)"
  have "fix_aspect_ratio_image env opened (JStr ''pad'') bg = Inr ?out"
    using assms(2,3) not_already_4000_4000
    by (subst fix_aspect_ratio_image_exact) (simp_all add: paste_def image_new_def)
  then have "fix_aspect_ratio env image_data (JStr ''pad'') bg = Inr (save_jpeg env ?out 95)"
    using assms(1) by (simp add: fix_aspect_ratio_def)
  moreover have "width ?out = 8000" "height ?out = 4000"
    by (simp_all add: paste_def image_new_def)
  moreover have "\<forall>x y. pix ?out x y =
          (if 2000 \<le> x \<and> x < 6000 \<and> 0 \<le> y \<and> y < 4000
           then pix (to_rgb env opened bg) (x - 2000) y else bg)"
    using assms(2,3) by (simp add: paste_def image_new_def)
  ultimately show ?thesis by blast
qed

theorem square_4000_pad_witness:
  "image_open test_env ''square'' = Inr (test_image 4000 4000)
   \<and> width (test_image 4000 4000) = 4000 \<and> height (test_image 4000 4000) = 4000
   \<and> (\<exists>out. fix_aspect_ratio test_env ''square'' (JStr ''pad'') 0 = Inr (save_jpeg test_env out 95)
        \<and> width out = 8000 \<and> height out = 4000 \<and> pix out 0 0 = 0 \<and> pix out 2000 0 = 1)"
proof -
  have h1: "image_open test_env ''square'' = Inr (test_image 4000 4000)"
    by (simp add: test_env_def)
  have h2: "width (test_image 4000 4000) = 4000" and h3: "height (test_image 4000 4000) = 4000"
    by (simp_all add: test_image_def)
  from square_4000_pad [OF h1 h2 h3, of 0] obtain out where
    o: "fix_aspect_ratio test_env ''square'' (JStr ''pad'') 0 = Inr (save_jpeg test_env out 95)"
      "width out = 8000" "height out = 4000"
      "\<forall>x y. pix out x y =
          (if 2000 \<le> x \<and> x < 6000 \<and> 0 \<le> y \<and> y < 4000
           then pix (to_rgb test_env (test_image 4000 4000) 0) (x - 2000) y else 0)"
    by blast
  from o(4) have "pix out 0 0 = 0" "pix out 2000 0 = 1"
    by (simp_all add: to_rgb_def test_image_def)
  with o(1-3) h1 h2 h3 show ?thesis by blast
qed

section \<open>Mode crop\<close>

text \<open>
  C1, as the claim states it, fails: an image that is already within 0.01 of 2:1 returns
  before the crop branch is reached. A 6001 by 3000 image in mode crop comes out 6001 by
  3000, and 6001 is not twice 3000.
\<close>

lemma already_6001_3000: "already_2_1 6001 3000"
  by code_simp

theorem crop_keeps_6001_3000:
  "image_dims (fix_aspect_ratio_image test_env (test_image 6001 3000) (JStr ''crop'') 0)
     = Some (6001, 3000)
   \<and> (6001 :: int) \<noteq> 2 * 3000"
  using already_6001_3000
  by (simp add: image_dims_def fix_aspect_ratio_image_def Let_def test_image_def to_rgb_def
      DEFAULT_WIDTH_def)

text \<open>
  C1, amended. For every image that opens with a non-zero height (sizes below \<open>2 ^ 53\<close>)
  and is processed in mode crop, the normalizer takes a box \<open>c\<close> at \<open>(left, top)\<close> inside
  the RGB-converted source, so that every pixel of \<open>c\<close> is the source pixel at that offset
  and no background or padding pixel is introduced, and encodes \<open>c\<close>, resized to 6000 by
  3000 when it is narrower than 6000. An image already within 0.01 of 2:1 keeps its own
  size; otherwise, when the image is too wide or its width is even, the box has
  width = 2 * height exactly.
\<close>

theorem crop_output:
  assumes op: "image_open env image_data = Inr opened"
    and h: "0 < height opened" and w: "0 \<le> width opened"
    and bw: "width opened < 2 ^ 53" and bh: "height opened < 2 ^ 53"
  shows "\<exists>c left top.
      fix_aspect_ratio env image_data (JStr ''crop'') bg
        = Inr (save_jpeg env (if width c < 6000 then resize env c (6000, 3000) else c) 95)
    \<and> (if already_2_1 (width opened) (height opened)
        then width c = width opened \<and> height c = height opened
        else (2 * height opened < width opened \<or> even (width opened)
                \<longrightarrow> width c = 2 * height c))
    \<and> 0 \<le> left \<and> 0 \<le> top
    \<and> left + width c \<le> width opened \<and> top + height c \<le> height opened
    \<and> (\<forall>x y. 0 \<le> x \<and> x < width c \<and> 0 \<le> y \<and> y < height c \<longrightarrow>
          pix c x y = pix (to_rgb env opened bg) (x + left) (y + top))"
proof -
  let ?src = "to_rgb env opened bg"
  let ?w = "width opened" and ?h = "height opened"
  let ?P = "\<lambda>c left top.
      fix_aspect_ratio env image_data (JStr ''crop'') bg
        = Inr (save_jpeg env (if width c < 6000 then resize env c (6000, 3000) else c) 95)
    \<and> (if already_2_1 ?w ?h
        then width c = ?w \<and> height c = ?h
        else (2 * ?h < ?w \<or> even ?w \<longrightarrow> width c = 2 * height c))
    \<and> 0 \<le> left \<and> 0 \<le> top
    \<and> left + width c \<le> ?w \<and> top + height c \<le> ?h
    \<and> (\<forall>x y. 0 \<le> x \<and> x < width c \<and> 0 \<le> y \<and> y < height c \<longrightarrow>
          pix c x y = pix ?src (x + left) (y + top))"
  note ex = fix_aspect_ratio_image_exact [OF h w bw bh, of env "JStr ''crop''" bg]
  consider (near) "already_2_1 ?w ?h"
    | (wide) "\<not> already_2_1 ?w ?h" "2 * ?h < ?w"
    | (tall) "\<not> already_2_1 ?w ?h" "\<not> 2 * ?h < ?w" by blast
  then show ?thesis
  proof cases
    case near
    have "?P ?src 0 0"
      using near op by (simp add: fix_aspect_ratio_def ex Let_def)
    then show ?thesis by blast
  next
    case wide
    let ?l = "(?w - 2 * ?h) div 2"
    let ?c = "crop env ?src (?l, 0, ?l + 2 * ?h, ?h)"
    have l: "0 \<le> ?l" "?l + 2 * ?h \<le> ?w" using wide(2) by simp_all
    have "?P ?c ?l 0"
      using wide op l h by (simp add: fix_aspect_ratio_def ex crop_def Let_def)
    then show ?thesis by blast
  next
    case tall
    from tall h have ne: "?w \<noteq> 2 * ?h" using not_already_not_exact [of ?h ?w] by simp
    with tall(2) have lt: "?w < 2 * ?h" by simp
    let ?t = "(?h - ?w div 2) div 2"
    let ?c = "crop env ?src (0, ?t, ?w, ?t + ?w div 2)"
    have t: "0 \<le> ?t" "?t + ?w div 2 \<le> ?h" using lt by simp_all
    have hw: "0 \<le> ?w div 2" using w by simp
    have "?P ?c 0 ?t"
      using tall op t w hw by (simp add: fix_aspect_ratio_def ex crop_def Let_def)
    then show ?thesis by blast
  qed
qed


theorem crop_output_witness:
  "image_open test_env ''square'' = Inr (test_image 4000 4000)
   \<and> 0 < height (test_image 4000 4000) \<and> 0 \<le> width (test_image 4000 4000)
   \<and> width (test_image 4000 4000) < 2 ^ 53 \<and> height (test_image 4000 4000) < 2 ^ 53
   \<and> (\<exists>c left top.
        fix_aspect_ratio test_env ''square'' (JStr ''crop'') 0
          = Inr (save_jpeg test_env
                  (if width c < 6000 then resize test_env c (6000, 3000) else c) 95)
        \<and> width c = 2 * height c
        \<and> 0 \<le> left \<and> 0 \<le> top \<and> left + width c \<le> 4000 \<and> top + height c \<le> 4000)"
proof -
  have h1: "image_open test_env ''square'' = Inr (test_image 4000 4000)"
    by (simp add: test_env_def)
  have h2: "0 < height (test_image 4000 4000)" and h3: "0 \<le> width (test_image 4000 4000)"
    and h4: "width (test_image 4000 4000) < 2 ^ 53" and h5: "height (test_image 4000 4000) < 2 ^ 53"
    by (simp_all add: test_image_def)
  have d: "width (test_image 4000 4000) = 4000" "height (test_image 4000 4000) = 4000"
    by (simp_all add: test_image_def)
  from crop_output [OF h1 h2 h3 h4 h5, of 0] obtain c left top where
    "fix_aspect_ratio test_env ''square'' (JStr ''crop'') 0
       = Inr (save_jpeg test_env
               (if width c < 6000 then resize test_env c (6000, 3000) else c) 95)
     \<and> width c = 2 * height c
     \<and> 0 \<le> left \<and> 0 \<le> top \<and> left + width c \<le> 4000 \<and> top + height c \<le> 4000"
    unfolding d using not_already_4000_4000 by auto
  with h1 h2 h3 h4 h5 show ?thesis by blast
qed

section \<open>Deleting from the gallery\<close>

text \<open>A name that is not in the gallery is answered with 404 and nothing is touched,
  whenever the existence check itself returns.\<close>

lemma api_gallery_delete_absent:
  "path_exists (disk w) (path_join GALLERY_DIR filename) = Inr False \<Longrightarrow>
   api_gallery_delete w filename = (Json [(''error'', JStr ''File not found'')] 404, w)"
  by (simp add: api_gallery_delete_def error_body_def)

text \<open>A name longer than \<open>NAME_MAX\<close> makes \<^verbatim>\<open>os.stat\<close> fail with
  \<^verbatim>\<open>ENAMETOOLONG\<close>, which \<^verbatim>\<open>Path.exists()\<close> raises again; the check stands before the
  \<^verbatim>\<open>try\<close> of the route.\<close>

lemma api_gallery_delete_name_too_long:
  assumes "gallery_ready (disk w)"
    and "CHR ''/'' \<notin> set filename" and "CHR 0x00 \<notin> set filename"
    and "NAME_MAX < length filename" and "length filename < 4000"
  shows "api_gallery_delete w filename
    = (Unhandled (ENAMETOOLONG (GALLERY_DIR @ [filename])), w)"
proof -
  from assms(4) have ne: "filename \<noteq> []" "filename \<noteq> ''.''" "filename \<noteq> ''..''"
    by (auto simp: NAME_MAX_def)
  have j: "path_join GALLERY_DIR filename = GALLERY_DIR @ [filename]"
    by (rule path_join_plain [OF assms(2) ne(1,2)])
  have n: "CHR 0x00 \<notin> set (path_str (GALLERY_DIR @ [filename]))"
    using assms(3) by (simp add: set_path_str GALLERY_DIR_def SERVER_DIR_def)
  have g: "GALLERY_DIR \<noteq> []" by (simp add: GALLERY_DIR_def)
  have l: "length (path_str (GALLERY_DIR @ [filename])) < PATH_MAX"
    using assms(5) g
    by (simp add: length_path_str_snoc length_path_str_GALLERY_DIR PATH_MAX_def)
  have "stat (disk w) (GALLERY_DIR @ [filename]) = Inl (ENAMETOOLONG (GALLERY_DIR @ [filename]))"
    using n l assms(4) by (simp add: stat_def walk_gallery_entry [OF assms(1) ne(3)])
  then have "path_exists (disk w) (GALLERY_DIR @ [filename])
      = Inl (ENAMETOOLONG (GALLERY_DIR @ [filename]))"
    by (simp add: path_exists_def ENAMETOOLONG_def)
  then show ?thesis by (simp add: api_gallery_delete_def j)
qed

text \<open>
  C6. A DELETE of a name that is not in the gallery should be answered with 404 and
  leave the gallery and the thumbnails as they are. For the name of 300 letters
  \<open>x\<close>, which is no file of the gallery, the files stay as they are but the route ends
  in the exception \<^verbatim>\<open>OSError: [Errno 36] File name too long\<close> that no handler catches,
  not in a 404 response.
\<close>

theorem api_gallery_delete_300_chars:
  "api_gallery_delete test_world (replicate 300 CHR ''x'')
     = (Unhandled (ENAMETOOLONG (GALLERY_DIR @ [replicate 300 CHR ''x''])), test_world)
   \<and> path_exists (disk test_world) (path_join GALLERY_DIR (replicate 300 CHR ''x''))
     \<noteq> Inr True"
proof -
  have a: "api_gallery_delete test_world (replicate 300 CHR ''x'')
     = (Unhandled (ENAMETOOLONG (GALLERY_DIR @ [replicate 300 CHR ''x''])), test_world)"
    by (rule api_gallery_delete_name_too_long [OF gallery_ready_test_world])
       (simp_all add: NAME_MAX_def)
  then have "path_exists (disk test_world) (path_join GALLERY_DIR (replicate 300 CHR ''x''))
     \<noteq> Inr True"
    by (auto simp: api_gallery_delete_def Let_def split: sum.splits if_splits)
  with a show ?thesis by simp
qed

section \<open>Generation without an image\<close>

text \<open>
  C7. A POST to \<^verbatim>\<open>/api/generate\<close> whose body has a prompt but no \<^verbatim>\<open>image\<close> field is
  answered with status 400 and the error \<^verbatim>\<open>No image provided\<close>; the state is returned
  as it was, so no call to the generation API is made.
\<close>

theorem api_generate_no_image:
  assumes "map_of data ''image'' = None" and "map_of data ''prompt'' = Some p"
  shows "api_generate env w data = (Json [(''error'', JStr ''No image provided'')] 400, w)
    \<and> api_calls (snd (api_generate env w data)) = api_calls w"
proof -
  from assms(2) have "data \<noteq> []" by auto
  with assms(1) show ?thesis
    by (simp add: api_generate_def dict_get_def Let_def error_body_def)
qed

theorem api_generate_no_image_witness:
  "map_of [(''prompt'', JStr ''a castle at dusk'')] ''image'' = None
   \<and> map_of [(''prompt'', JStr ''a castle at dusk'')] ''prompt'' = Some (JStr ''a castle at dusk'')
   \<and> api_generate test_env test_world [(''prompt'', JStr ''a castle at dusk'')]
       = (Json [(''error'', JStr ''No image provided'')] 400, test_world)"
proof -
  let ?data = "[(''prompt'', JStr ''a castle at dusk'')]"
  have h1: "map_of ?data ''image'' = None" by simp
  have h2: "map_of ?data ''prompt'' = Some (JStr ''a castle at dusk'')" by simp
  from api_generate_no_image [OF h1 h2, of test_env test_world] h1 h2 show ?thesis by blast
qed

section \<open>Fixing the ratio without saving\<close>




section \<open>Images that cannot be decoded\<close>




section \<open>Metadata injection fails softly\<close>




end
